theory Spec2Isabelle
  imports Main "HOL-Library.Log_Nat"
begin

section \<open>The Python object model used by \<open>ferris/base.py\<close>\<close>

text \<open>
  A class is given by its name and the rest of its method resolution order, so two
  classes are the same class exactly when the whole chain agrees, and the subclass
  relation cannot have a cycle. \<open>PyObjectClass\<close> is Python's \<open>object\<close>.
\<close>

datatype pyclass = PyObjectClass | Class string pyclass

text \<open>\<open>issubclass c d\<close>: \<open>d\<close> occurs in the method resolution order of \<open>c\<close>.\<close>

fun issubclass :: "pyclass \<Rightarrow> pyclass \<Rightarrow> bool" where
  "issubclass PyObjectClass d = (d = PyObjectClass)"
| "issubclass (Class n b) d = (Class n b = d \<or> issubclass b d)"

text \<open>
  An instance of \<open>SnowflakeObject\<close>: its identity (the address \<open>id(obj)\<close> of the
  interpreter), its class \<open>__class__\<close>, and the slot \<open>__id\<close>, which holds \<open>None\<close>
  until a snowflake is stored.
\<close>

record pyobj =
  addr :: nat
  cls :: pyclass
  obj_id :: "int option"

definition isinstance :: "pyobj \<Rightarrow> pyclass \<Rightarrow> bool" where
  "isinstance obj c = issubclass (cls obj) c"

text \<open>
  What the interpreter fixes and the repository does not: the hash of \<open>None\<close> and the
  hash \<open>object.__hash__\<close> derives from an object's address.
\<close>

record pyruntime =
  hash_None :: int
  hash_pointer :: "nat \<Rightarrow> int"

text \<open>An interpreter to run the definitions on: \<open>hash(None)\<close> as CPython 3.12 fixes
  it, and the address without its four alignment bits as the hash of a pointer.\<close>

definition cpython :: pyruntime where
  "cpython = \<lparr>hash_None = 4238894112, hash_pointer = (\<lambda>p. int (p div 16))\<rparr>"

text \<open>CPython's hash of an integer (64-bit build): reduction modulo \<open>2^61 - 1\<close>,
  keeping the sign, with \<open>-1\<close> replaced by \<open>-2\<close>.\<close>

definition PyHASH_MODULUS :: int where
  "PyHASH_MODULUS = 2 ^ 61 - 1"

definition hash_int :: "int \<Rightarrow> int" where
  "hash_int n = (let h = sgn n * (\<bar>n\<bar> mod PyHASH_MODULUS) in if h = - 1 then - 2 else h)"

text \<open>\<open>hash(x)\<close> for the values the slot \<open>__id\<close> holds.\<close>

definition hash_id :: "pyruntime \<Rightarrow> int option \<Rightarrow> int" where
  "hash_id rt v = (case v of None \<Rightarrow> hash_None rt | Some n \<Rightarrow> hash_int n)"

subsection \<open>The classes of \<open>base.py\<close>\<close>

definition ABC :: pyclass where
  "ABC = Class ''ABC'' PyObjectClass"

definition SnowflakeObject :: pyclass where
  "SnowflakeObject = Class ''SnowflakeObject'' ABC"

text \<open>\<open>class BaseObject(SnowflakeObject, ABC)\<close>: the method resolution order is
  BaseObject, SnowflakeObject, ABC, object.\<close>

definition BaseObject :: pyclass where
  "BaseObject = Class ''BaseObject'' SnowflakeObject"

text \<open>\<open>class Object(SnowflakeObject)\<close>\<close>

definition Object :: pyclass where
  "Object = Class ''Object'' SnowflakeObject"

text \<open>Subclasses of the kind the library derives from \<open>BaseObject\<close>, to run the
  definitions on: \<open>class User(BaseObject)\<close> and \<open>class Admin(User)\<close>.\<close>

definition User :: pyclass where
  "User = Class ''User'' BaseObject"

definition Admin :: pyclass where
  "Admin = Class ''Admin'' User"

subsection \<open>\<open>SnowflakeObject\<close>\<close>

definition SnowflakeObject_init :: "pyobj \<Rightarrow> pyobj" where
  "SnowflakeObject_init self = self\<lparr>obj_id := None\<rparr>"

definition store_snowflake :: "pyobj \<Rightarrow> int \<Rightarrow> pyobj" where
  "store_snowflake self i = self\<lparr>obj_id := Some i\<rparr>"

subsection \<open>\<open>BaseObject\<close>\<close>

text \<open>\<open>return hash(self.id)\<close>\<close>

definition BaseObject_hash :: "pyruntime \<Rightarrow> pyobj \<Rightarrow> int" where
  "BaseObject_hash rt self = hash_id rt (obj_id self)"

text \<open>\<open>return isinstance(other, self.__class__) and other.id == self.id\<close>\<close>

definition BaseObject_eq :: "pyobj \<Rightarrow> pyobj \<Rightarrow> bool" where
  "BaseObject_eq self other = (isinstance other (cls self) \<and> obj_id other = obj_id self)"

text \<open>\<open>return not self.__eq__(other)\<close>\<close>

definition BaseObject_ne :: "pyobj \<Rightarrow> pyobj \<Rightarrow> bool" where
  "BaseObject_ne self other = (\<not> BaseObject_eq self other)"

subsection \<open>\<open>Object\<close>\<close>

text \<open>\<open>Object(id)\<close>: a fresh instance at address \<open>a\<close>, then \<open>__init__\<close>, which calls
  \<open>super().__init__()\<close> and \<open>self._store_snowflake(id)\<close>.\<close>

definition Object_init :: "pyobj \<Rightarrow> int \<Rightarrow> pyobj" where
  "Object_init self i = store_snowflake (SnowflakeObject_init self) i"

definition Object_new :: "nat \<Rightarrow> int \<Rightarrow> pyobj" where
  "Object_new a i = Object_init \<lparr>addr = a, cls = Object, obj_id = None\<rparr> i"

subsection \<open>The operators \<open>==\<close> and \<open>hash\<close>\<close>

text \<open>
  \<open>object.__eq__\<close>: \<open>True\<close> for the same object, \<open>NotImplemented\<close> (here \<open>None\<close>)
  otherwise. \<open>object.__hash__\<close>: the hash of the address.
\<close>

definition object_eq :: "pyobj \<Rightarrow> pyobj \<Rightarrow> bool option" where
  "object_eq self other = (if addr self = addr other then Some True else None)"

definition object_hash :: "pyruntime \<Rightarrow> pyobj \<Rightarrow> int" where
  "object_hash rt self = hash_pointer rt (addr self)"

text \<open>
  Method lookup along the method resolution order, for the classes of this module and
  the subclasses that inherit their methods: \<open>__eq__\<close> and \<open>__hash__\<close> are found in
  \<open>BaseObject\<close> when the class derives from it, and in \<open>object\<close> otherwise
  (\<open>SnowflakeObject\<close>, \<open>ABC\<close> and \<open>Object\<close> define neither).
\<close>

definition type_eq :: "pyobj \<Rightarrow> pyobj \<Rightarrow> bool option" where
  "type_eq self other =
     (if issubclass (cls self) BaseObject then Some (BaseObject_eq self other)
      else object_eq self other)"

definition py_hash :: "pyruntime \<Rightarrow> pyobj \<Rightarrow> int" where
  "py_hash rt self =
     (if issubclass (cls self) BaseObject then BaseObject_hash rt self
      else object_hash rt self)"

text \<open>
  \<open>v == w\<close>, as the interpreter evaluates it: when the class of \<open>w\<close> is a proper subclass
  of the class of \<open>v\<close>, the method of \<open>w\<close> is tried first; then the method of \<open>v\<close>; then
  the method of \<open>w\<close> if it was not tried yet; when every method answers
  \<open>NotImplemented\<close>, the result is the identity of the two objects.
\<close>

definition py_eq :: "pyobj \<Rightarrow> pyobj \<Rightarrow> bool" where
  "py_eq v w =
     (let reflected_first = (cls v \<noteq> cls w \<and> issubclass (cls w) (cls v)) in
      case (if reflected_first then type_eq w v else None) of
        Some r \<Rightarrow> r
      | None \<Rightarrow>
          (case type_eq v w of
             Some r \<Rightarrow> r
           | None \<Rightarrow>
               (case (if reflected_first then None else type_eq w v) of
                  Some r \<Rightarrow> r
                | None \<Rightarrow> addr v = addr w)))"

section \<open>\<open>ferris/utils.py\<close>\<close>

subsection \<open>\<open>from_json\<close>\<close>

datatype json =
  JNull | JBool bool | JInt int | JFloat rat | JString string
  | JArray "json list" | JObject "(string \<times> json) list"

datatype json_error = JSONDecodeError

text \<open>
  \<open>json.loads\<close> belongs to the standard library; it is the parameter \<open>loads\<close>, which
  either raises (\<open>Inl\<close>) or returns the parsed value. Python's \<open>None\<close> is \<open>JNull\<close>. A
  string is falsy exactly when it is empty.
\<close>

definition from_json :: "(string \<Rightarrow> json_error + json) \<Rightarrow> string \<Rightarrow> json_error + json" where
  "from_json loads json_str = (if json_str = [] then Inr JNull else loads json_str)"

text \<open>A parser that knows two documents, to run \<open>from_json\<close> on.\<close>

definition loads_two :: "string \<Rightarrow> json_error + json" where
  \<open>loads_two s =
     (if s = ''null'' then Inr JNull
      else if s = ''{"a":1}'' then Inr (JObject [(''a'', JInt 1)])
      else Inl JSONDecodeError)\<close>

subsection \<open>Floating point and \<open>datetime\<close>\<close>

text \<open>
  Python's \<open>float\<close> is IEEE 754 binary64. A float is modelled by the rational number it
  denotes, and every operation rounds its exact result to the nearest number with a
  53-bit significand, ties to even (\<open>fl\<close>). The exponent is not bounded: the values of
  this module (seconds and milliseconds of a \<open>datetime\<close>) are far from overflow and
  from the subnormal range.
\<close>

definition pow2 :: "int \<Rightarrow> rat" where
  "pow2 e = (if 0 \<le> e then 2 ^ nat e else 1 / 2 ^ nat (- e))"

text \<open>Rounding to the nearest integer, ties to the even one: Python's \<open>round\<close>.\<close>

definition round_half_even :: "rat \<Rightarrow> int" where
  "round_half_even q =
     (let f = \<lfloor>q\<rfloor>; r = q - of_int f in
      if r < 1 / 2 then f else if 1 / 2 < r then f + 1 else if even f then f else f + 1)"

text \<open>\<open>ilog2 q\<close> is the binary exponent of \<open>q > 0\<close>: the \<open>e\<close> with \<open>2^e \<le> q < 2^(e+1)\<close>.\<close>

definition ilog2 :: "rat \<Rightarrow> int" where
  "ilog2 q = (if 1 \<le> q then bitlen \<lfloor>q\<rfloor> - 1 else - bitlen (\<lceil>1 / q\<rceil> - 1))"

text \<open>The nearest float: sign and magnitude, the magnitude rounded to a multiple of
  the unit in the last place \<open>2^(e-52)\<close>.\<close>

definition fl :: "rat \<Rightarrow> rat" where
  "fl q =
     (if q = 0 then 0
      else let u = pow2 (ilog2 \<bar>q\<bar> - 52) in sgn q * (of_int (round_half_even (\<bar>q\<bar> / u)) * u))"

text \<open>\<open>int(x)\<close> truncates towards zero; an integer operand of a float operation is
  converted to a float; \<open>a / b\<close> on integers is the correctly rounded quotient.\<close>

definition py_int :: "rat \<Rightarrow> int" where
  "py_int x = (if 0 \<le> x then \<lfloor>x\<rfloor> else \<lceil>x\<rceil>)"

definition float_of_int :: "int \<Rightarrow> rat" where
  "float_of_int n = fl (of_int n)"

definition int_truediv :: "int \<Rightarrow> int \<Rightarrow> rat" where
  "int_truediv a b = fl (of_int a / of_int b)"

text \<open>
  A \<open>datetime\<close> is the instant it denotes: the microseconds since 1970-01-01T00:00:00
  UTC. That is an aware datetime in UTC; \<open>utcfromtimestamp\<close> returns a naive datetime,
  read here as the instant its fields name in UTC. A naive argument of \<open>timestamp()\<close> is
  not modelled: it is read in the local time zone, and its float is computed in another
  way. \<open>datetime_utc\<close> builds the instant from the calendar fields, with the day count
  of the \<open>datetime\<close> module (\<open>_ymd2ord\<close>; 719163 is the ordinal of 1970-01-01).
\<close>

datatype datetime = Datetime (posix_us: int)

definition is_leap :: "int \<Rightarrow> bool" where
  "is_leap year = (year mod 4 = 0 \<and> (year mod 100 \<noteq> 0 \<or> year mod 400 = 0))"

definition days_before_year :: "int \<Rightarrow> int" where
  "days_before_year year = (let y = year - 1 in y * 365 + y div 4 - y div 100 + y div 400)"

definition days_before_month :: "int \<Rightarrow> nat \<Rightarrow> int" where
  "days_before_month year month =
     [0, 0, 31, 59, 90, 120, 151, 181, 212, 243, 273, 304, 334] ! month
     + (if 2 < month \<and> is_leap year then 1 else 0)"

definition ymd2ord :: "int \<Rightarrow> nat \<Rightarrow> int \<Rightarrow> int" where
  "ymd2ord year month day = days_before_year year + days_before_month year month + day"

definition datetime_utc :: "int \<Rightarrow> nat \<Rightarrow> int \<Rightarrow> int \<Rightarrow> int \<Rightarrow> int \<Rightarrow> int \<Rightarrow> datetime" where
  "datetime_utc year month day hour minute second microsecond =
     Datetime ((((ymd2ord year month day - 719163) * 86400
                 + hour * 3600 + minute * 60 + second) * 1000000) + microsecond)"

text \<open>\<open>dt.timestamp()\<close> of an aware datetime: the microseconds since the epoch divided
  by \<open>10^6\<close> (\<open>timedelta.total_seconds\<close>).\<close>

definition timestamp :: "datetime \<Rightarrow> rat" where
  "timestamp dt = int_truediv (posix_us dt) 1000000"

text \<open>
  \<open>datetime.utcfromtimestamp(t)\<close>: the integral part of \<open>t\<close> as seconds, and the
  fractional part times \<open>1e6\<close>, rounded half to even, as microseconds. It raises when
  the year leaves 1..9999.
\<close>

datatype py_error = OutOfRange

definition utcfromtimestamp :: "rat \<Rightarrow> py_error + datetime" where
  "utcfromtimestamp t =
     (let t_int = py_int t;
          frac = t - of_int t_int;
          us = round_half_even (fl (frac * float_of_int 1000000));
          dt = Datetime (t_int * 1000000 + us)
      in if posix_us (datetime_utc 1 1 1 0 0 0 0) \<le> posix_us dt
            \<and> posix_us dt \<le> posix_us (datetime_utc 9999 12 31 23 59 59 999999)
         then Inr dt else Inl OutOfRange)"

subsection \<open>The snowflake codec\<close>

definition FERRIS_EPOCH_MS :: int where
  "FERRIS_EPOCH_MS = 1577836800000"

text \<open>\<open>snowflake >> 64\<close>, the millisecond offset a snowflake carries.\<close>

definition snowflake_timestamp :: "int \<Rightarrow> int" where
  "snowflake_timestamp snowflake = drop_bit 64 snowflake"

text \<open>\<open>seconds = ((snowflake >> 64) + FERRIS_EPOCH_MS) / 1000\<close>;
  \<open>return datetime.utcfromtimestamp(seconds)\<close>\<close>

definition get_snowflake_creation_date :: "int \<Rightarrow> py_error + datetime" where
  "get_snowflake_creation_date snowflake =
     (let seconds = int_truediv (snowflake_timestamp snowflake + FERRIS_EPOCH_MS) 1000
      in utcfromtimestamp seconds)"

text \<open>\<open>timestamp = dt.timestamp() * 1000 - FERRIS_EPOCH_MS\<close>;
  \<open>return int(timestamp) << 64\<close>\<close>

definition dt_to_snowflake :: "datetime \<Rightarrow> int" where
  "dt_to_snowflake dt =
     (let timestamp = fl (fl (timestamp dt * float_of_int 1000) - float_of_int FERRIS_EPOCH_MS)
      in push_bit 64 (py_int timestamp))"

subsection \<open>\<open>sanitize_id\<close>\<close>

text \<open>The values an \<open>Id\<close> argument takes: \<open>None\<close>, an integer, a string, or an object
  with a snowflake.\<close>

datatype pyval = PyNone | PyInt int | PyStr string | PyObj pyobj

text \<open>Truth value testing: \<open>None\<close>, \<open>0\<close> and the empty string are false; an instance of
  \<open>SnowflakeObject\<close> defines neither \<open>__bool__\<close> nor \<open>__len__\<close> and is true.\<close>

fun truthy :: "pyval \<Rightarrow> bool" where
  "truthy PyNone = False"
| "truthy (PyInt n) = (n \<noteq> 0)"
| "truthy (PyStr s) = (s \<noteq> [])"
| "truthy (PyObj obj) = True"

text \<open>The attribute \<open>id\<close>: the property of \<open>SnowflakeObject\<close>; \<open>None\<close> here when the value
  has no such attribute.\<close>

fun attr_id :: "pyval \<Rightarrow> pyval option" where
  "attr_id (PyObj obj) = Some (case obj_id obj of None \<Rightarrow> PyNone | Some n \<Rightarrow> PyInt n)"
| "attr_id v = None"

text \<open>\<open>getattr(v, 'id', default)\<close>\<close>

definition getattr_id :: "pyval \<Rightarrow> pyval \<Rightarrow> pyval" where
  "getattr_id v dflt = (case attr_id v of Some a \<Rightarrow> a | None \<Rightarrow> dflt)"

text \<open>\<open>return getattr(id, 'id', id) if id else None\<close>\<close>

definition sanitize_id :: "pyval \<Rightarrow> pyval" where
  "sanitize_id v = (if truthy v then getattr_id v v else PyNone)"

subsection \<open>\<open>find\<close>\<close>

text \<open>
  An iterable is an iterator state together with \<open>__next__\<close>, which yields an element
  and the next state, or \<open>None\<close> for \<open>StopIteration\<close>. The loop may run forever on an
  endless iterator, so the result is optional: \<open>None\<close> is "does not return". A result
  carries what \<open>find\<close> returns (\<open>Some\<close> element, or \<open>None\<close> for Python's \<open>None\<close>) and the
  state the iterator is left in. The predicate is its truth value.
\<close>

type_synonym ('a, 's) iterator = "'s \<Rightarrow> ('a \<times> 's) option"

partial_function (option) find_py ::
  "('a \<Rightarrow> bool) \<Rightarrow> ('a, 's) iterator \<Rightarrow> 's \<Rightarrow> ('a option \<times> 's) option" where
  "find_py predicate nxt s =
     (case nxt s of
        None \<Rightarrow> Some (None, s)
      | Some (element, s') \<Rightarrow>
          if predicate element then Some (Some element, s') else find_py predicate nxt s')"

text \<open>\<open>consume nxt n s\<close>: the first \<open>n\<close> elements of the iterator and the state after
  them; \<open>None\<close> when it ends earlier.\<close>

fun consume :: "('a, 's) iterator \<Rightarrow> nat \<Rightarrow> 's \<Rightarrow> ('a list \<times> 's) option" where
  "consume nxt 0 s = Some ([], s)"
| "consume nxt (Suc n) s =
     (case nxt s of
        None \<Rightarrow> None
      | Some (x, s') \<Rightarrow>
          (case consume nxt n s' of None \<Rightarrow> None | Some (xs, s'') \<Rightarrow> Some (x # xs, s'')))"

text \<open>Two iterators: over a list, and the endless \<open>itertools.count\<close>.\<close>

definition list_next :: "('a, 'a list) iterator" where
  "list_next xs = (case xs of [] \<Rightarrow> None | x # ys \<Rightarrow> Some (x, ys))"

definition count_next :: "(int, int) iterator" where
  "count_next n = Some (n, n + 1)"

subsection \<open>\<open>to_error_string\<close>\<close>








section \<open>Properties\<close>

subsection \<open>Equality and hashing\<close>

lemma issubclass_refl: "issubclass c c"
  by (cases c) simp_all

lemma issubclass_size: "issubclass c d \<Longrightarrow> size d \<le> size c"
  by (induction c) auto

lemma issubclass_antisym: "issubclass c d \<Longrightarrow> issubclass d c \<Longrightarrow> c = d"
proof (cases c)
  case PyObjectClass
  assume "issubclass c d"
  with PyObjectClass show ?thesis by simp
next
  case (Class n b)
  assume cd: "issubclass c d" and dc: "issubclass d c"
  show ?thesis
  proof (rule ccontr)
    assume ne: "c \<noteq> d"
    with cd Class have "issubclass b d" by auto
    then have "size d \<le> size b" by (rule issubclass_size)
    moreover from dc have "size c \<le> size d" by (rule issubclass_size)
    moreover from Class have "size b < size c" by simp
    ultimately show False by simp
  qed
qed

lemma issubclass_trans: "issubclass c d \<Longrightarrow> issubclass d e \<Longrightarrow> issubclass c e"
  by (induction c) auto

lemma type_eq_BaseObject:
  "isinstance a BaseObject \<Longrightarrow> type_eq a b = Some (BaseObject_eq a b)"
  by (simp add: type_eq_def isinstance_def)

lemma py_eq_BaseObject:
  assumes "isinstance a BaseObject" and "isinstance b BaseObject"
  shows "py_eq a b = (cls a = cls b \<and> obj_id a = obj_id b)"
proof (cases "cls a = cls b")
  case True
  with assms show ?thesis
    by (auto simp: py_eq_def type_eq_BaseObject BaseObject_eq_def isinstance_def
        issubclass_refl)
next
  case False
  show ?thesis
  proof (cases "issubclass (cls b) (cls a)")
    case True
    with False have "\<not> issubclass (cls a) (cls b)"
      using issubclass_antisym by blast
    with assms False True show ?thesis
      by (simp add: py_eq_def type_eq_BaseObject BaseObject_eq_def isinstance_def)
  next
    case nsub: False
    with assms False show ?thesis
      by (simp add: py_eq_def type_eq_BaseObject BaseObject_eq_def isinstance_def)
  qed
qed

text \<open>
  C2. For two instances \<open>a\<close> and \<open>b\<close> of \<open>BaseObject\<close>, \<open>a == b\<close> holds if and only if
  they have the very same class and equal ids; instances of different classes with
  equal ids are not equal.
\<close>

theorem BaseObject_eq_iff_same_class_and_id:
  assumes "isinstance a BaseObject" and "isinstance b BaseObject"
  shows "py_eq a b = (cls a = cls b \<and> obj_id a = obj_id b) \<and>
         (cls a \<noteq> cls b \<and> obj_id a = obj_id b \<longrightarrow> \<not> py_eq a b)"
  using assms by (simp add: py_eq_BaseObject)

text \<open>
  The method alone answers \<open>True\<close> for an instance of a subclass with the same id
  (\<open>isinstance\<close> accepts subclasses); the operator asks the subclass first, and that
  answers \<open>False\<close>.
\<close>

theorem BaseObject_eq_iff_same_class_and_id_witness:
  "isinstance \<lparr>addr = 1, cls = User, obj_id = Some 7\<rparr> BaseObject \<and>
   isinstance \<lparr>addr = 2, cls = Admin, obj_id = Some 7\<rparr> BaseObject \<and>
   py_eq \<lparr>addr = 1, cls = User, obj_id = Some 7\<rparr> \<lparr>addr = 2, cls = Admin, obj_id = Some 7\<rparr>
     = (User = Admin \<and> Some (7::int) = Some 7) \<and>
   \<not> py_eq \<lparr>addr = 1, cls = User, obj_id = Some 7\<rparr> \<lparr>addr = 2, cls = Admin, obj_id = Some 7\<rparr> \<and>
   BaseObject_eq \<lparr>addr = 1, cls = User, obj_id = Some 7\<rparr> \<lparr>addr = 2, cls = Admin, obj_id = Some 7\<rparr> \<and>
   py_eq \<lparr>addr = 1, cls = User, obj_id = Some 7\<rparr> \<lparr>addr = 3, cls = User, obj_id = Some 7\<rparr>"
  using BaseObject_eq_iff_same_class_and_id
    [of "\<lparr>addr = 1, cls = User, obj_id = Some 7\<rparr>" "\<lparr>addr = 2, cls = Admin, obj_id = Some 7\<rparr>"]
    BaseObject_eq_iff_same_class_and_id
    [of "\<lparr>addr = 1, cls = User, obj_id = Some 7\<rparr>" "\<lparr>addr = 3, cls = User, obj_id = Some 7\<rparr>"]
  by (simp add: isinstance_def BaseObject_eq_def User_def Admin_def BaseObject_def)

text \<open>
  C6. For two instances \<open>a\<close> and \<open>b\<close> of \<open>BaseObject\<close> of the same class, \<open>a == b\<close>
  implies \<open>hash(a) == hash(b)\<close>; the hash of an instance is the hash of its id.
\<close>

theorem BaseObject_hash_consistent:
  assumes "isinstance a BaseObject" and "isinstance b BaseObject"
    and "cls a = cls b" and "py_eq a b"
  shows "py_hash rt a = py_hash rt b \<and> py_hash rt a = hash_id rt (obj_id a)"
proof -
  from assms have "obj_id a = obj_id b"
    by (simp add: py_eq_BaseObject)
  with assms(1,2) show ?thesis
    by (simp add: py_hash_def BaseObject_hash_def isinstance_def)
qed

theorem BaseObject_hash_consistent_witness:
  "py_eq \<lparr>addr = 16, cls = User, obj_id = Some 7\<rparr> \<lparr>addr = 48, cls = User, obj_id = Some 7\<rparr> \<and>
   py_hash cpython \<lparr>addr = 16, cls = User, obj_id = Some 7\<rparr>
     = py_hash cpython \<lparr>addr = 48, cls = User, obj_id = Some 7\<rparr> \<and>
   py_hash cpython \<lparr>addr = 16, cls = User, obj_id = Some 7\<rparr> = 7"
proof -
  have inst: "isinstance \<lparr>addr = n, cls = User, obj_id = Some 7\<rparr> BaseObject" for n
    by (simp add: isinstance_def User_def BaseObject_def)
  have eq: "py_eq \<lparr>addr = 16, cls = User, obj_id = Some 7\<rparr> \<lparr>addr = 48, cls = User, obj_id = Some 7\<rparr>"
    by (simp add: py_eq_BaseObject inst)
  have "hash_id cpython (Some 7) = 7"
    by (simp add: hash_id_def hash_int_def PyHASH_MODULUS_def)
  with BaseObject_hash_consistent [OF inst inst _ eq, of cpython] eq show ?thesis
    by simp
qed

text \<open>
  C10. Two distinct instances of \<open>Object\<close> built with the same id are not equal under
  \<open>==\<close>, and their hashes are the hashes of their identities, whatever the id is:
  \<open>Object\<close> does not derive from \<open>BaseObject\<close>, where the id-based methods are.
\<close>

theorem Object_identity_semantics:
  assumes "a1 \<noteq> a2"
  shows "\<not> py_eq (Object_new a1 i) (Object_new a2 i) \<and>
         py_hash rt (Object_new a1 i) = hash_pointer rt a1 \<and>
         py_hash rt (Object_new a2 i) = hash_pointer rt a2 \<and>
         (\<forall>j. py_hash rt (Object_new a1 j) = py_hash rt (Object_new a1 i)) \<and>
         \<not> issubclass Object BaseObject"
  using assms
  by (simp add: py_eq_def type_eq_def object_eq_def py_hash_def object_hash_def
      Object_new_def Object_init_def store_snowflake_def SnowflakeObject_init_def
      Object_def BaseObject_def SnowflakeObject_def ABC_def)

theorem Object_identity_semantics_witness:
  "(16::nat) \<noteq> 48 \<and> \<not> py_eq (Object_new 16 7) (Object_new 48 7) \<and>
   py_hash cpython (Object_new 16 7) = 1 \<and> py_hash cpython (Object_new 48 7) = 3 \<and>
   obj_id (Object_new 16 7) = Some 7 \<and> obj_id (Object_new 48 7) = Some 7"
  using Object_identity_semantics [of 16 48 7 cpython]
  by (simp add: Object_new_def Object_init_def store_snowflake_def SnowflakeObject_init_def
      cpython_def)

subsection \<open>\<open>from_json\<close>\<close>

text \<open>
  C4. \<open>from_json\<close> returns null for the empty (falsy) string without calling the parser;
  for a non-empty string it is the parser's outcome: a parse failure is propagated, and
  a parsed value is returned (\<open>null\<close> gives null, \<open>{"a":1}\<close> the mapping of \<open>a\<close> to 1,
  for a parser that reads them so).
\<close>

theorem from_json_cases:
  "from_json loads [] = Inr JNull \<and>
   (s \<noteq> [] \<and> loads s = Inl e \<longrightarrow> from_json loads s = Inl e) \<and>
   (s \<noteq> [] \<and> loads s = Inr v \<longrightarrow> from_json loads s = Inr v)"
  by (simp add: from_json_def)

theorem from_json_cases_witness:
  \<open>from_json loads_two [] = Inr JNull \<and>
   from_json loads_two ''{"a":'' = Inl JSONDecodeError \<and>
   from_json loads_two ''null'' = Inr JNull \<and>
   from_json loads_two ''{"a":1}'' = Inr (JObject [(''a'', JInt 1)])\<close>
  using from_json_cases [of loads_two \<open>''{"a":''\<close> JSONDecodeError]
    from_json_cases [of loads_two \<open>''null''\<close> _ JNull]
    from_json_cases [of loads_two \<open>''{"a":1}''\<close> _ \<open>JObject [(''a'', JInt 1)]\<close>]
  by (simp add: loads_two_def)

subsection \<open>\<open>sanitize_id\<close>\<close>

text \<open>
  C7. \<open>sanitize_id\<close> returns \<open>None\<close> for a falsy value (\<open>None\<close> and \<open>0\<close> among them);
  for any other value it returns the attribute \<open>id\<close> if the value has one, and the
  value itself if it has none.
\<close>

theorem sanitize_id_cases:
  "(\<not> truthy v \<longrightarrow> sanitize_id v = PyNone) \<and>
   (truthy v \<longrightarrow> (\<forall>a. attr_id v = Some a \<longrightarrow> sanitize_id v = a) \<and>
                 (attr_id v = None \<longrightarrow> sanitize_id v = v)) \<and>
   sanitize_id PyNone = PyNone \<and> sanitize_id (PyInt 0) = PyNone \<and>
   (n \<noteq> 0 \<longrightarrow> sanitize_id (PyInt n) = PyInt n) \<and>
   (obj_id obj = Some i \<longrightarrow> sanitize_id (PyObj obj) = PyInt i)"
  by (simp add: sanitize_id_def getattr_id_def)

theorem sanitize_id_cases_witness:
  "sanitize_id (PyInt 0) = PyNone \<and> sanitize_id PyNone = PyNone \<and> sanitize_id (PyStr []) = PyNone \<and>
   sanitize_id (PyInt 42) = PyInt 42 \<and> sanitize_id (PyObj (Object_new 16 7)) = PyInt 7"
  using sanitize_id_cases [of "PyInt 0" 42 "Object_new 16 7" 7]
    sanitize_id_cases [of "PyStr []" 42 "Object_new 16 7" 7]
  by (simp add: Object_new_def Object_init_def store_snowflake_def SnowflakeObject_init_def)

subsection \<open>\<open>find\<close>\<close>

lemma consume_list_2: "consume list_next 2 [1, 2, 3, 4 :: int] = Some ([1, 2], [3, 4])"
  by (simp add: list_next_def numeral_2_eq_2)

lemma consume_count_3: "consume count_next 3 0 = Some ([0, 1, 2], 3)"
  by (simp add: count_next_def numeral_3_eq_3)

lemma consume_list_3: "consume list_next 3 [1, 2, 3 :: int] = Some ([1, 2, 3], [])"
  by (simp add: list_next_def numeral_3_eq_3)

text \<open>Elements that fail the predicate are skipped.\<close>

lemma find_py_no_match:
  "consume nxt n s = Some (xs, s1) \<Longrightarrow> \<forall>x \<in> set xs. \<not> p x \<Longrightarrow>
   find_py p nxt s = find_py p nxt s1"
proof (induction n arbitrary: s xs)
  case 0
  then show ?case by simp
next
  case (Suc n)
  then show ?case
    by (subst find_py.simps) (auto split: option.splits prod.splits)
qed

text \<open>
  C5. When the iterator yields \<open>n\<close> elements that fail the predicate and then an element
  \<open>x\<close> that satisfies it, \<open>find\<close> returns \<open>x\<close> and leaves the iterator in the state right
  after \<open>x\<close>: nothing beyond the first match is consumed, and the call returns even when
  the iterator is endless. When the iterator ends after \<open>n\<close> elements that all fail the
  predicate, \<open>find\<close> returns \<open>None\<close>.
\<close>

theorem find_first_match:
  "(consume nxt n s = Some (xs, s1) \<and> (\<forall>x \<in> set xs. \<not> p x) \<and> nxt s1 = Some (x, s2) \<and> p x
      \<longrightarrow> find_py p nxt s = Some (Some x, s2)) \<and>
   (consume nxt n s = Some (xs, s1) \<and> (\<forall>x \<in> set xs. \<not> p x) \<and> nxt s1 = None
      \<longrightarrow> find_py p nxt s = Some (None, s1))"
proof (intro conjI impI)
  assume h: "consume nxt n s = Some (xs, s1) \<and> (\<forall>x \<in> set xs. \<not> p x) \<and> nxt s1 = Some (x, s2) \<and> p x"
  then have "find_py p nxt s = find_py p nxt s1"
    using find_py_no_match by fastforce
  also from h have "\<dots> = Some (Some x, s2)"
    by (subst find_py.simps) simp
  finally show "find_py p nxt s = Some (Some x, s2)" .
next
  assume h: "consume nxt n s = Some (xs, s1) \<and> (\<forall>x \<in> set xs. \<not> p x) \<and> nxt s1 = None"
  then have "find_py p nxt s = find_py p nxt s1"
    using find_py_no_match by fastforce
  also from h have "\<dots> = Some (None, s1)"
    by (subst find_py.simps) simp
  finally show "find_py p nxt s = Some (None, s1)" .
qed

theorem find_first_match_witness:
  "find_py (\<lambda>x. 2 < x) list_next [1, 2, 3, 4 :: int] = Some (Some 3, [4]) \<and>
   find_py (\<lambda>x. 10 < x) list_next [1, 2, 3 :: int] = Some (None, []) \<and>
   find_py (\<lambda>x. 2 < x) count_next 0 = Some (Some 3, 4)"
proof (intro conjI)
  show "find_py (\<lambda>x. 2 < x) list_next [1, 2, 3, 4 :: int] = Some (Some 3, [4])"
    using find_first_match [of list_next 2 "[1, 2, 3, 4 :: int]" "[1, 2]" "[3, 4]" "\<lambda>x. 2 < x" 3 "[4]"] consume_list_2
    by (simp add: list_next_def)
  show "find_py (\<lambda>x. 10 < x) list_next [1, 2, 3 :: int] = Some (None, [])"
    using find_first_match [of list_next 3 "[1, 2, 3 :: int]" "[1, 2, 3]" "[]" "\<lambda>x. 10 < x"] consume_list_3
    by (simp add: list_next_def)
  show "find_py (\<lambda>x. 2 < x) count_next 0 = Some (Some 3, 4)"
    using find_first_match [of count_next 3 0 "[0, 1, 2]" 3 "\<lambda>x. 2 < x" 3 4] consume_count_3
    by (simp add: count_next_def)
qed

subsection \<open>\<open>to_error_string\<close>\<close>





subsection \<open>Rounding to a float is monotone\<close>

text \<open>Powers of two, and the binary exponent of a positive rational.\<close>

lemma pow2_powi: "pow2 e = 2 powi e"
  by (simp add: pow2_def power_int_def inverse_eq_divide power_one_over)

lemma pow2_pos: "0 < pow2 e"
  by (simp add: pow2_def)

lemma pow2_mono: "a \<le> b \<Longrightarrow> pow2 a \<le> pow2 b"
  by (simp add: pow2_powi power_int_increasing)

lemma pow2_add: "pow2 (a + b) = pow2 a * pow2 b"
  by (simp add: pow2_powi power_int_add)

lemma pow2_nat: "pow2 (int n) = 2 ^ n"
  by (simp add: pow2_def)

lemma ilog2_bounds:
  assumes "0 < q"
  shows "pow2 (ilog2 q) \<le> q \<and> q < pow2 (ilog2 q + 1)"
proof (cases "1 \<le> q")
  case True
  define n where "n = \<lfloor>q\<rfloor>"
  from True have n: "0 < n" by (simp add: n_def)
  from bitlen_bounds [OF n] have b: "2 ^ nat (bitlen n - 1) \<le> n" "n < 2 ^ nat (bitlen n)"
    by simp_all
  from n have bl: "1 \<le> bitlen n"
    using bitlen_eq_zero_iff [of n] bitlen_nonneg [of n] by linarith
  have "(of_int (2 ^ nat (bitlen n - 1)) :: rat) \<le> of_int n"
    using b(1) by (simp only: of_int_le_iff)
  also have "\<dots> \<le> q" by (simp add: n_def)
  finally have lo: "pow2 (bitlen n - 1) \<le> q"
    using bl by (simp add: pow2_def)
  have "n + 1 \<le> 2 ^ nat (bitlen n)" using b(2) by simp
  then have "(of_int (n + 1) :: rat) \<le> of_int (2 ^ nat (bitlen n))"
    by (simp only: of_int_le_iff)
  moreover have "q < of_int (n + 1)" using floor_correct [of q] by (simp add: n_def)
  ultimately have hi: "q < pow2 (bitlen n)"
    using bl by (simp add: pow2_def)
  from lo hi True show ?thesis by (simp add: ilog2_def n_def)
next
  case False
  define r where "r = 1 / q"
  define m where "m = \<lceil>r\<rceil> - 1"
  from False assms have r1: "1 < r" by (simp add: r_def)
  then have m: "0 < m" unfolding m_def by linarith
  have mr: "of_int m < r" "r \<le> of_int m + 1"
    unfolding m_def by linarith+
  from bitlen_bounds [OF m] have b: "2 ^ nat (bitlen m - 1) \<le> m" "m < 2 ^ nat (bitlen m)"
    by simp_all
  from m have bl: "1 \<le> bitlen m"
    using bitlen_eq_zero_iff [of m] bitlen_nonneg [of m] by linarith
  have "m + 1 \<le> 2 ^ nat (bitlen m)" using b(2) by simp
  then have "(of_int (m + 1) :: rat) \<le> of_int (2 ^ nat (bitlen m))"
    by (simp only: of_int_le_iff)
  with mr(2) have rle: "r \<le> 2 ^ nat (bitlen m)" by simp
  have "(of_int (2 ^ nat (bitlen m - 1)) :: rat) \<le> of_int m"
    using b(1) by (simp only: of_int_le_iff)
  then have "(2::rat) ^ nat (bitlen m - 1) \<le> of_int m" by simp
  with mr(1) have rgt: "2 ^ nat (bitlen m - 1) < r" by linarith
  have q: "q = 1 / r" by (simp add: r_def)
  have rpos: "0 < r" using r1 by simp
  have lo: "pow2 (- bitlen m) \<le> q"
  proof -
    have "1 / 2 ^ nat (bitlen m) \<le> 1 / r"
      using rle rpos by (simp add: frac_le)
    with bl show ?thesis by (simp add: pow2_def q)
  qed
  have hi: "q < pow2 (- bitlen m + 1)"
  proof (cases "bitlen m = 1")
    case True
    with r1 show ?thesis by (simp add: pow2_def q)
  next
    case ne: False
    with bl have "1 < bitlen m" by simp
    moreover have "1 / r < 1 / 2 ^ nat (bitlen m - 1)"
      using rgt by (simp add: frac_less2)
    ultimately show ?thesis by (simp add: pow2_def q)
  qed
  from lo hi False show ?thesis by (simp add: ilog2_def r_def m_def)
qed

lemma ilog2_mono:
  assumes "0 < x" and "x \<le> y"
  shows "ilog2 x \<le> ilog2 y"
proof (rule ccontr)
  assume "\<not> ilog2 x \<le> ilog2 y"
  then have "ilog2 y + 1 \<le> ilog2 x" by simp
  then have "pow2 (ilog2 y + 1) \<le> pow2 (ilog2 x)" by (rule pow2_mono)
  also have "\<dots> \<le> x" using ilog2_bounds [OF assms(1)] by simp
  also have "\<dots> \<le> y" by fact
  finally show False using ilog2_bounds [of y] assms by simp
qed

lemma round_half_even_of_int: "round_half_even (of_int n) = n"
  by (simp add: round_half_even_def)

lemma round_half_even_range: "\<lfloor>q\<rfloor> \<le> round_half_even q \<and> round_half_even q \<le> \<lfloor>q\<rfloor> + 1"
  by (simp add: round_half_even_def Let_def)

lemma round_half_even_mono:
  assumes "x \<le> y"
  shows "round_half_even x \<le> round_half_even y"
proof (cases "\<lfloor>x\<rfloor> = \<lfloor>y\<rfloor>")
  case True
  with assms show ?thesis
    by (auto simp: round_half_even_def Let_def)
next
  case False
  with assms have "\<lfloor>x\<rfloor> + 1 \<le> \<lfloor>y\<rfloor>"
    using floor_mono [of x y] by linarith
  with round_half_even_range [of x] round_half_even_range [of y] show ?thesis
    by linarith
qed

lemma fl_pos:
  "0 < q \<Longrightarrow> fl q = of_int (round_half_even (q / pow2 (ilog2 q - 52))) * pow2 (ilog2 q - 52)"
  by (simp add: fl_def Let_def)

lemma fl_pos_bounds:
  assumes "0 < q"
  shows "pow2 (ilog2 q) \<le> fl q \<and> fl q \<le> pow2 (ilog2 q + 1)"
proof -
  define e where "e = ilog2 q"
  define u where "u = pow2 (e - 52)"
  have u: "0 < u" by (simp add: u_def pow2_pos)
  have "pow2 e = pow2 (52 + (e - 52))" by simp
  also have "\<dots> = pow2 52 * pow2 (e - 52)" by (rule pow2_add)
  finally have pe: "pow2 e = 2 ^ 52 * u" by (simp add: u_def pow2_nat [of 52, simplified])
  have "pow2 (e + 1) = pow2 (53 + (e - 52))" by (rule arg_cong [where f = pow2]) simp
  also have "\<dots> = pow2 53 * pow2 (e - 52)" by (rule pow2_add)
  finally have pe1: "pow2 (e + 1) = 2 ^ 53 * u" by (simp add: u_def pow2_nat [of 53, simplified])
  from ilog2_bounds [OF assms] have "2 ^ 52 * u \<le> q" "q < 2 ^ 53 * u"
    by (simp_all add: e_def [symmetric] pe pe1)
  with u have "of_int (2 ^ 52) \<le> q / u" "q / u \<le> of_int (2 ^ 53)"
    by (simp_all add: pos_le_divide_eq pos_divide_le_eq)
  then have "round_half_even (of_int (2 ^ 52)) \<le> round_half_even (q / u)"
    "round_half_even (q / u) \<le> round_half_even (of_int (2 ^ 53))"
    by (simp_all only: round_half_even_mono)
  then have "2 ^ 52 \<le> round_half_even (q / u)" "round_half_even (q / u) \<le> 2 ^ 53"
    by (simp_all only: round_half_even_of_int)
  then have "(of_int (2 ^ 52) :: rat) \<le> of_int (round_half_even (q / u))"
    "(of_int (round_half_even (q / u)) :: rat) \<le> of_int (2 ^ 53)"
    by (simp_all only: of_int_le_iff)
  with u have "2 ^ 52 * u \<le> of_int (round_half_even (q / u)) * u"
    "of_int (round_half_even (q / u)) * u \<le> 2 ^ 53 * u"
    by simp_all
  then show ?thesis
    using assms by (simp add: fl_pos e_def [symmetric] u_def [symmetric] pe pe1)
qed

lemma fl_mono_pos:
  assumes "0 < x" and "x \<le> y"
  shows "fl x \<le> fl y"
proof (cases "ilog2 x = ilog2 y")
  case True
  define u where "u = pow2 (ilog2 y - 52)"
  have u: "0 < u" by (simp add: u_def pow2_pos)
  from assms u have "x / u \<le> y / u" by (simp add: divide_right_mono)
  then have "round_half_even (x / u) \<le> round_half_even (y / u)"
    by (rule round_half_even_mono)
  then have "(of_int (round_half_even (x / u)) :: rat) \<le> of_int (round_half_even (y / u))"
    by (simp only: of_int_le_iff)
  with u have "of_int (round_half_even (x / u)) * u \<le> of_int (round_half_even (y / u)) * u"
    by simp
  with assms True show ?thesis by (simp add: fl_pos u_def)
next
  case False
  with ilog2_mono [OF assms] have "ilog2 x + 1 \<le> ilog2 y" by simp
  then have "pow2 (ilog2 x + 1) \<le> pow2 (ilog2 y)" by (rule pow2_mono)
  moreover have "fl x \<le> pow2 (ilog2 x + 1)" using fl_pos_bounds [OF assms(1)] by simp
  moreover have "pow2 (ilog2 y) \<le> fl y" using fl_pos_bounds [of y] assms by simp
  ultimately show ?thesis by linarith
qed

lemma fl_zero: "fl 0 = 0"
  by (simp add: fl_def)

lemma fl_minus: "fl (- q) = - fl q"
  by (simp add: fl_def Let_def)

lemma fl_pos_pos: "0 < q \<Longrightarrow> 0 < fl q"
  using fl_pos_bounds [of q] pow2_pos [of "ilog2 q"] by linarith

lemma fl_mono:
  assumes "x \<le> y"
  shows "fl x \<le> fl y"
proof -
  consider "0 < x" | "x = 0" "y = 0" | "x = 0" "0 < y" | "x < 0" "0 \<le> y" | "x < 0" "y < 0"
    using assms by linarith
  then show ?thesis
  proof cases
    case 1
    with assms show ?thesis by (simp add: fl_mono_pos)
  next
    case 2
    then show ?thesis by simp
  next
    case 3
    then show ?thesis using fl_pos_pos [of y] by (simp add: fl_zero)
  next
    case 4
    have "fl (- x) > 0" using 4 by (simp add: fl_pos_pos)
    then have "fl x < 0" by (simp add: fl_minus)
    moreover have "0 \<le> fl y"
      using 4 fl_pos_pos [of y] by (cases "y = 0") (simp_all add: fl_zero less_le)
    ultimately show ?thesis by simp
  next
    case 5
    with assms have "fl (- y) \<le> fl (- x)" by (simp add: fl_mono_pos)
    then show ?thesis by (simp add: fl_minus)
  qed
qed

lemma py_int_mono:
  assumes "x \<le> y"
  shows "py_int x \<le> py_int y"
proof (cases "0 \<le> x")
  case True
  with assms show ?thesis by (simp add: py_int_def floor_mono)
next
  case False
  show ?thesis
  proof (cases "0 \<le> y")
    case True
    from False have "\<lceil>x\<rceil> \<le> 0" by (simp add: ceiling_le_iff)
    moreover from True have "0 \<le> \<lfloor>y\<rfloor>" by simp
    moreover from False have "py_int x = \<lceil>x\<rceil>" by (simp add: py_int_def)
    moreover from True have "py_int y = \<lfloor>y\<rfloor>" by (simp add: py_int_def)
    ultimately show ?thesis by linarith
  next
    case ny: False
    with False assms show ?thesis by (simp add: py_int_def ceiling_mono)
  qed
qed

lemma float_of_int_nonneg: "0 \<le> n \<Longrightarrow> 0 \<le> float_of_int n"
  using fl_mono [of 0 "of_int n"] by (simp add: float_of_int_def fl_zero)

subsection \<open>The snowflake codec\<close>

text \<open>
  C3. With the epoch constant 1577836800000 ms, decoding the snowflake 0 yields
  exactly 2020-01-01T00:00:00 UTC.
\<close>

theorem decode_zero_is_epoch:
  "FERRIS_EPOCH_MS = 1577836800000 \<and>
   get_snowflake_creation_date 0 = Inr (datetime_utc 2020 1 1 0 0 0 0)"
  by code_simp

text \<open>
  C1. Decoding the snowflake of an instant should give the instant truncated to the
  millisecond, with the low 64 bits of the snowflake zero. At 2038-01-19T03:14:08.002
  UTC, a whole number of milliseconds, it does not: the product
  \<open>dt.timestamp() * 1000\<close> rounds to 2147483648001.99976 and \<open>int\<close> truncates it, so
  the snowflake carries the millisecond before, and decoding returns
  2038-01-19T03:14:08.001. The low 64 bits of the snowflake are zero.
\<close>

theorem roundtrip_loses_a_millisecond:
  "get_snowflake_creation_date (dt_to_snowflake (datetime_utc 2038 1 19 3 14 8 2000))
     = Inr (datetime_utc 2038 1 19 3 14 8 1000) \<and>
   datetime_utc 2038 1 19 3 14 8 1000 \<noteq> datetime_utc 2038 1 19 3 14 8 2000 \<and>
   snowflake_timestamp (dt_to_snowflake (datetime_utc 2038 1 19 3 14 8 2000))
     = 2147483648001 - FERRIS_EPOCH_MS \<and>
   dt_to_snowflake (datetime_utc 2038 1 19 3 14 8 2000) mod 2 ^ 64 = 0"
  by code_simp

text \<open>Encoding is monotone, and the order of two snowflakes follows the order of their
  millisecond offsets.\<close>

lemma dt_to_snowflake_mono:
  assumes "posix_us t1 \<le> posix_us t2"
  shows "dt_to_snowflake t1 \<le> dt_to_snowflake t2"
proof -
  have "(of_int (posix_us t1) :: rat) / of_int 1000000 \<le> of_int (posix_us t2) / of_int 1000000"
    using assms by (simp add: divide_right_mono)
  then have "timestamp t1 \<le> timestamp t2"
    unfolding timestamp_def int_truediv_def by (rule fl_mono)
  then have "timestamp t1 * float_of_int 1000 \<le> timestamp t2 * float_of_int 1000"
    using float_of_int_nonneg [of 1000] by (simp add: mult_right_mono)
  then have "fl (timestamp t1 * float_of_int 1000) \<le> fl (timestamp t2 * float_of_int 1000)"
    by (rule fl_mono)
  then have "fl (timestamp t1 * float_of_int 1000) - float_of_int FERRIS_EPOCH_MS
      \<le> fl (timestamp t2 * float_of_int 1000) - float_of_int FERRIS_EPOCH_MS"
    by simp
  then have "py_int (fl (fl (timestamp t1 * float_of_int 1000) - float_of_int FERRIS_EPOCH_MS))
      \<le> py_int (fl (fl (timestamp t2 * float_of_int 1000) - float_of_int FERRIS_EPOCH_MS))"
    by (intro py_int_mono fl_mono)
  then show ?thesis
    by (simp add: dt_to_snowflake_def Let_def push_bit_int_def)
qed

lemma snowflake_order:
  assumes "snowflake_timestamp s1 < snowflake_timestamp s2"
  shows "s1 < s2"
proof (rule ccontr)
  assume "\<not> s1 < s2"
  then have "s2 div 2 ^ 64 \<le> s1 div 2 ^ 64"
    by (simp add: zdiv_mono1)
  with assms show False
    by (simp add: snowflake_timestamp_def drop_bit_int_def)
qed

lemma snowflake_timestamp_low_bits:
  assumes "0 \<le> lo" and "lo < 2 ^ 64"
  shows "snowflake_timestamp (push_bit 64 k + lo) = k"
  using assms by (simp add: snowflake_timestamp_def drop_bit_int_def push_bit_int_def)

lemma dt_to_snowflake_push: "dt_to_snowflake t = push_bit 64 (snowflake_timestamp (dt_to_snowflake t))"
  by (simp add: dt_to_snowflake_def Let_def snowflake_timestamp_def drop_bit_int_def push_bit_int_def)

text \<open>
  C9. Snowflakes sort by creation time whatever their low 64 bits are: when the
  millisecond offset (the high bits) of one snowflake is less than that of another, the
  first snowflake is the smaller number; in particular this holds for encoded
  snowflakes with any low 64 bits added; and \<open>dt_to_snowflake\<close> is monotone in the
  instant it encodes.
\<close>

theorem snowflakes_sort_by_creation_time:
  "(snowflake_timestamp s1 < snowflake_timestamp s2 \<longrightarrow> s1 < s2) \<and>
   (0 \<le> lo1 \<and> lo1 < 2 ^ 64 \<and> 0 \<le> lo2 \<and> lo2 < 2 ^ 64 \<and>
    snowflake_timestamp (dt_to_snowflake t1) < snowflake_timestamp (dt_to_snowflake t2)
      \<longrightarrow> dt_to_snowflake t1 + lo1 < dt_to_snowflake t2 + lo2) \<and>
   (posix_us t1 \<le> posix_us t2 \<longrightarrow> dt_to_snowflake t1 \<le> dt_to_snowflake t2)"
proof (intro conjI impI)
  assume "snowflake_timestamp s1 < snowflake_timestamp s2"
  then show "s1 < s2" by (rule snowflake_order)
next
  assume h: "0 \<le> lo1 \<and> lo1 < 2 ^ 64 \<and> 0 \<le> lo2 \<and> lo2 < 2 ^ 64 \<and>
    snowflake_timestamp (dt_to_snowflake t1) < snowflake_timestamp (dt_to_snowflake t2)"
  define k1 where "k1 = snowflake_timestamp (dt_to_snowflake t1)"
  define k2 where "k2 = snowflake_timestamp (dt_to_snowflake t2)"
  have e: "dt_to_snowflake t1 = push_bit 64 k1" "dt_to_snowflake t2 = push_bit 64 k2"
    unfolding k1_def k2_def by (rule dt_to_snowflake_push)+
  from h have "snowflake_timestamp (push_bit 64 k1 + lo1) < snowflake_timestamp (push_bit 64 k2 + lo2)"
    by (simp add: snowflake_timestamp_low_bits k1_def k2_def)
  then have "push_bit 64 k1 + lo1 < push_bit 64 k2 + lo2" by (rule snowflake_order)
  then show "dt_to_snowflake t1 + lo1 < dt_to_snowflake t2 + lo2" by (simp only: e)
next
  assume "posix_us t1 \<le> posix_us t2"
  then show "dt_to_snowflake t1 \<le> dt_to_snowflake t2" by (rule dt_to_snowflake_mono)
qed

theorem snowflakes_sort_by_creation_time_witness:
  "snowflake_timestamp (2 ^ 64 - 1) < snowflake_timestamp (2 ^ 64) \<and> (2 ^ 64 - 1 :: int) < 2 ^ 64 \<and>
   dt_to_snowflake (datetime_utc 2020 1 1 0 0 0 0) = 0 \<and>
   dt_to_snowflake (datetime_utc 2020 1 1 0 0 0 1000) = 2 ^ 64 \<and>
   dt_to_snowflake (datetime_utc 2020 1 1 0 0 0 0) + (2 ^ 64 - 1)
     < dt_to_snowflake (datetime_utc 2020 1 1 0 0 0 1000) + 0 \<and>
   posix_us (datetime_utc 2020 1 1 0 0 0 0) \<le> posix_us (datetime_utc 2020 1 1 0 0 0 1000) \<and>
   dt_to_snowflake (datetime_utc 2020 1 1 0 0 0 0) \<le> dt_to_snowflake (datetime_utc 2020 1 1 0 0 0 1000)"
proof -
  have a: "snowflake_timestamp (2 ^ 64 - 1) < snowflake_timestamp (2 ^ 64)"
    by (simp add: snowflake_timestamp_def drop_bit_int_def)
  have b: "dt_to_snowflake (datetime_utc 2020 1 1 0 0 0 0) = 0"
    by code_simp
  have c: "dt_to_snowflake (datetime_utc 2020 1 1 0 0 0 1000) = 2 ^ 64"
    by code_simp
  have d: "snowflake_timestamp (dt_to_snowflake (datetime_utc 2020 1 1 0 0 0 0))
      < snowflake_timestamp (dt_to_snowflake (datetime_utc 2020 1 1 0 0 0 1000))"
    unfolding b c by (simp add: snowflake_timestamp_def drop_bit_int_def)
  have e: "posix_us (datetime_utc 2020 1 1 0 0 0 0) \<le> posix_us (datetime_utc 2020 1 1 0 0 0 1000)"
    by code_simp
  from snowflakes_sort_by_creation_time
    [of "2 ^ 64 - 1" "2 ^ 64" "2 ^ 64 - 1" 0 "datetime_utc 2020 1 1 0 0 0 0"
      "datetime_utc 2020 1 1 0 0 0 1000"] a d e
  have "(2 ^ 64 - 1 :: int) < 2 ^ 64 \<and>
    dt_to_snowflake (datetime_utc 2020 1 1 0 0 0 0) + (2 ^ 64 - 1)
     < dt_to_snowflake (datetime_utc 2020 1 1 0 0 0 1000) + 0 \<and>
    dt_to_snowflake (datetime_utc 2020 1 1 0 0 0 0) \<le> dt_to_snowflake (datetime_utc 2020 1 1 0 0 0 1000)"
    by simp
  with a b c e show ?thesis by simp
qed

subsection \<open>The round trip between the epoch and 2038\<close>

text \<open>The error of rounding to a float is half a unit in the last place, and a number
  with a significand below \<open>2^53\<close> is a float.\<close>

lemma ilog2_unique:
  assumes "0 < q" and "pow2 e \<le> q" and "q < pow2 (e + 1)"
  shows "ilog2 q = e"
proof (rule antisym)
  show "ilog2 q \<le> e"
  proof (rule ccontr)
    assume "\<not> ilog2 q \<le> e"
    then have "e + 1 \<le> ilog2 q" by simp
    then have "pow2 (e + 1) \<le> pow2 (ilog2 q)" by (rule pow2_mono)
    with ilog2_bounds [OF assms(1)] assms(3) show False by linarith
  qed
  show "e \<le> ilog2 q"
  proof (rule ccontr)
    assume "\<not> e \<le> ilog2 q"
    then have "ilog2 q + 1 \<le> e" by simp
    then have "pow2 (ilog2 q + 1) \<le> pow2 e" by (rule pow2_mono)
    with ilog2_bounds [OF assms(1)] assms(2) show False by linarith
  qed
qed

lemma round_half_even_error: "\<bar>of_int (round_half_even y) - y\<bar> \<le> 1 / 2"
proof -
  have "of_int \<lfloor>y\<rfloor> \<le> y" "y < of_int \<lfloor>y\<rfloor> + 1"
    using floor_correct [of y] by simp_all
  then show ?thesis
    by (auto simp: round_half_even_def Let_def abs_le_iff)
qed

lemma round_half_even_near:
  assumes "\<bar>y - of_int n\<bar> < 1 / 2"
  shows "round_half_even y = n"
proof -
  have "\<bar>(of_int (round_half_even y) :: rat) - of_int n\<bar> < 1"
    using round_half_even_error [of y] assms by linarith
  then have "\<bar>(of_int (round_half_even y - n) :: rat)\<bar> < of_int 1"
    by simp
  then have "\<bar>round_half_even y - n\<bar> < 1"
    by (simp only: of_int_abs [symmetric] of_int_less_iff)
  then show ?thesis by simp
qed

lemma pow2_half: "pow2 (e - 1) = pow2 e / 2"
proof -
  have "pow2 e = pow2 (1 + (e - 1))" by simp
  also have "\<dots> = pow2 1 * pow2 (e - 1)" by (rule pow2_add)
  finally show ?thesis by (simp add: pow2_def)
qed

lemma fl_error:
  assumes "0 < q"
  shows "\<bar>fl q - q\<bar> \<le> pow2 (ilog2 q - 53)"
proof -
  define u where "u = pow2 (ilog2 q - 52)"
  have u: "0 < u" by (simp add: u_def pow2_pos)
  have "\<bar>of_int (round_half_even (q / u)) - q / u\<bar> * u \<le> (1 / 2) * u"
    using round_half_even_error [of "q / u"] u by (simp add: mult_right_mono)
  moreover have "\<bar>of_int (round_half_even (q / u)) - q / u\<bar> * u
      = \<bar>of_int (round_half_even (q / u)) * u - q\<bar>"
  proof -
    have "\<bar>of_int (round_half_even (q / u)) - q / u\<bar> * u
        = \<bar>(of_int (round_half_even (q / u)) - q / u) * u\<bar>"
      using u by (simp add: abs_mult)
    also have "(of_int (round_half_even (q / u)) - q / u) * u
        = of_int (round_half_even (q / u)) * u - q"
      using u by (simp add: left_diff_distrib)
    finally show ?thesis .
  qed
  moreover have "pow2 (ilog2 q - 53) = u / 2"
    using pow2_half [of "ilog2 q - 52"] by (simp add: u_def)
  ultimately show ?thesis
    using assms by (simp add: fl_pos u_def [symmetric])
qed

lemma fl_exact:
  assumes "0 < m" and "m < 2 ^ 53"
  shows "fl (of_int m * pow2 e) = of_int m * pow2 e"
proof -
  define j where "j = bitlen m - 1"
  from assms(1) have bl: "1 \<le> bitlen m"
    using bitlen_eq_zero_iff [of m] bitlen_nonneg [of m] by linarith
  then have j0: "0 \<le> j" by (simp add: j_def)
  from assms(2) have "bitlen m \<le> 53"
    by (simp add: bitlen_le_iff_power)
  then have j52: "j \<le> 52" by (simp add: j_def)
  from bitlen_bounds [OF assms(1)] have b: "2 ^ nat j \<le> m" "m < 2 ^ nat (j + 1)"
    by (simp_all add: j_def)
  have "(of_int (2 ^ nat j) :: rat) \<le> of_int m" using b(1) by (simp only: of_int_le_iff)
  then have lo: "pow2 j \<le> of_int m" using j0 by (simp add: pow2_def)
  have "(of_int m :: rat) < of_int (2 ^ nat (j + 1))" using b(2) by (simp only: of_int_less_iff)
  then have hi: "of_int m < pow2 (j + 1)" using j0 by (simp add: pow2_def)
  define q where "q = of_int m * pow2 e"
  have q: "0 < q" using assms(1) pow2_pos [of e] by (simp add: q_def)
  have "pow2 (j + e) \<le> q" "q < pow2 (j + e + 1)"
    using lo hi pow2_pos [of e] pow2_add [of j e] pow2_add [of "j + 1" e]
    by (simp_all add: q_def add.commute add.left_commute)
  with q have il: "ilog2 q = j + e" by (intro ilog2_unique) simp_all
  define u where "u = pow2 (j + e - 52)"
  have u: "0 < u" by (simp add: u_def pow2_pos)
  have "pow2 e = pow2 ((52 - j) + (j + e - 52))" by simp
  also have "\<dots> = pow2 (52 - j) * u" unfolding u_def by (rule pow2_add)
  also have "pow2 (52 - j) = of_int (2 ^ nat (52 - j))" using j52 by (simp add: pow2_def)
  finally have pe: "pow2 e = of_int (2 ^ nat (52 - j)) * u" .
  then have "q / u = of_int (m * 2 ^ nat (52 - j))"
    using u by (simp add: q_def)
  then have "round_half_even (q / u) = m * 2 ^ nat (52 - j)"
    by (simp only: round_half_even_of_int)
  then have "fl q = of_int (m * 2 ^ nat (52 - j)) * u"
    using q il by (simp add: fl_pos u_def)
  also have "\<dots> = q" by (simp add: q_def pe)
  finally show ?thesis by (simp add: q_def)
qed

lemma fl_of_int:
  assumes "0 \<le> m" and "m < 2 ^ 53"
  shows "fl (of_int m) = of_int m"
proof (cases "m = 0")
  case True
  then show ?thesis by (simp add: fl_zero)
next
  case False
  with assms fl_exact [of m 0] show ?thesis by (simp add: pow2_def)
qed

lemma float_of_int_exact: "0 \<le> m \<Longrightarrow> m < 2 ^ 53 \<Longrightarrow> float_of_int m = of_int m"
  by (simp add: float_of_int_def fl_of_int)

text \<open>
  For an instant from 2020-01-01T00:00:00 UTC up to, and not including,
  2038-01-19T03:14:08 UTC (\<open>2^31\<close> seconds), the seconds lie in \<open>[2^30, 2^31)\<close> and the
  milliseconds in \<open>[2^40, 2^41)\<close>, where the rounding errors of \<open>timestamp() * 1000\<close> stay
  below the distance to the next millisecond: the snowflake carries the millisecond of
  the instant.
\<close>

lemma abs_le_D: "\<bar>x - y\<bar> \<le> (d::rat) \<Longrightarrow> y - d \<le> x \<and> x \<le> y + d"
  by (auto simp: abs_le_iff)

lemma div_mod_rat: "(of_int n :: rat) = 1000 * of_int (n div 1000) + of_int (n mod 1000)"
proof -
  have "n = 1000 * (n div 1000) + n mod 1000" by simp
  then have "(of_int n :: rat) = of_int (1000 * (n div 1000) + n mod 1000)" by simp
  then show ?thesis by (simp only: of_int_add of_int_mult of_int_numeral)
qed

lemma dt_to_snowflake_exact:
  assumes "1577836800000000 \<le> us" and "us < 2147483648000000"
  shows "dt_to_snowflake (Datetime us) = push_bit 64 (us div 1000 - FERRIS_EPOCH_MS)"
proof -
  define a :: rat where "a = of_int us / 1000000"
  have "(of_int 1577836800000000 :: rat) \<le> of_int us" "(of_int us :: rat) < of_int 2147483648000000"
    using assms by (simp_all only: of_int_le_iff of_int_less_iff)
  then have a: "1577836800 \<le> a" "a < 2147483648"
    by (simp_all add: a_def)
  then have apos: "0 < a" by simp
  have ila: "ilog2 a = 30"
    using a apos by (intro ilog2_unique) (simp_all add: pow2_def)
  define s where "s = fl a"
  have "\<bar>s - a\<bar> \<le> 1 / 8388608"
    using fl_error [OF apos] by (simp add: s_def ila pow2_def)
  then have s: "a - 1 / 8388608 \<le> s" "s \<le> a + 1 / 8388608"
    using abs_le_D by blast+
  define x where "x = s * 1000"
  have xa: "1000 * a - 1000 / 8388608 \<le> x" "x \<le> 1000 * a + 1000 / 8388608"
    using s by (simp_all add: x_def)
  have xr: "1099511627776 \<le> x" "x < 2199023255552"
    using xa a by linarith+
  then have xpos: "0 < x" by simp
  have ilx: "ilog2 x = 40"
    using xr xpos by (intro ilog2_unique) (simp_all add: pow2_def)
  define m where "m = round_half_even (x / pow2 (- 12))"
  have p: "fl x = of_int m / 4096"
    using xpos by (simp add: fl_pos ilx m_def pow2_def)
  have "\<bar>fl x - x\<bar> \<le> 1 / 8192"
    using fl_error [OF xpos] by (simp add: ilx pow2_def)
  then have px: "x - 1 / 8192 \<le> fl x" "fl x \<le> x + 1 / 8192"
    using abs_le_D by blast+
  define k where "k = us div 1000"
  define r where "r = us mod 1000"
  have r: "0 \<le> r" "r < 1000" by (simp_all add: r_def)
  have us: "(of_int us :: rat) = 1000 * of_int k + of_int r"
    unfolding k_def r_def by (rule div_mod_rat)
  have a1000: "1000 * a = of_int k + of_int r / 1000"
    by (simp add: a_def us)
  have kE: "FERRIS_EPOCH_MS \<le> k"
    using assms(1) by (simp add: k_def FERRIS_EPOCH_MS_def)
  have kp: "of_int k \<le> fl x \<and> fl x < of_int k + 1"
  proof (cases "r = 0")
    case True
    with a1000 xa have xk: "of_int k - 1000 / 8388608 \<le> x" "x \<le> of_int k + 1000 / 8388608"
      by simp_all
    have k4: "(of_int (k * 4096) :: rat) = of_int k * 4096" by simp
    have "x * 4096 - of_int (k * 4096) < 1 / 2" "- (x * 4096 - of_int (k * 4096)) < 1 / 2"
      unfolding k4 using xk by linarith+
    then have "\<bar>x * 4096 - of_int (k * 4096)\<bar> < 1 / 2"
      by (simp only: abs_less_iff)
    then have "round_half_even (x * 4096) = k * 4096"
      by (rule round_half_even_near)
    then have "m = k * 4096" by (simp add: m_def pow2_def)
    with p show ?thesis by simp
  next
    case False
    with r have "1 \<le> r" "r \<le> 999" by simp_all
    then have "(of_int 1 :: rat) \<le> of_int r" "(of_int r :: rat) \<le> of_int 999"
      by (simp_all only: of_int_le_iff)
    then have "(1 :: rat) \<le> of_int r" "(of_int r :: rat) \<le> 999" by simp_all
    with a1000 xa px show ?thesis by linarith
  qed
  define m' where "m' = m - FERRIS_EPOCH_MS * 4096"
  have d: "fl x - of_int FERRIS_EPOCH_MS = of_int m' * pow2 (- 12)"
    by (simp add: p m'_def pow2_def diff_divide_distrib)
  have "of_int FERRIS_EPOCH_MS \<le> fl x" "fl x < 2199023255553"
    using kp kE px xr by (auto simp: order_trans [OF _ conjunct1 [OF kp]])
  then have "(of_int (FERRIS_EPOCH_MS * 4096) :: rat) \<le> of_int m"
    "(of_int m :: rat) < of_int (2199023255553 * 4096)"
    by (simp_all add: p)
  then have "FERRIS_EPOCH_MS * 4096 \<le> m" "m < 2199023255553 * 4096"
    by (simp_all only: of_int_le_iff of_int_less_iff)
  then have m': "0 \<le> m'" "m' < 2 ^ 53"
    by (simp_all add: m'_def FERRIS_EPOCH_MS_def)
  have ex: "fl (fl x - of_int FERRIS_EPOCH_MS) = fl x - of_int FERRIS_EPOCH_MS"
  proof (cases "m' = 0")
    case True
    with d show ?thesis by (simp add: fl_zero)
  next
    case False
    with m' have "0 < m'" by simp
    from fl_exact [OF this m'(2), of "- 12"] d show ?thesis by simp
  qed
  have "py_int (fl x - of_int FERRIS_EPOCH_MS) = k - FERRIS_EPOCH_MS"
  proof -
    have "(of_int (k - FERRIS_EPOCH_MS) :: rat) \<le> fl x - of_int FERRIS_EPOCH_MS"
      "fl x - of_int FERRIS_EPOCH_MS < of_int (k - FERRIS_EPOCH_MS) + 1"
      using kp by simp_all
    then have "\<lfloor>fl x - of_int FERRIS_EPOCH_MS\<rfloor> = k - FERRIS_EPOCH_MS"
      by (intro floor_unique)
    moreover have "0 \<le> fl x - of_int FERRIS_EPOCH_MS"
      using \<open>of_int FERRIS_EPOCH_MS \<le> fl x\<close> by simp
    ultimately show ?thesis by (simp add: py_int_def)
  qed
  moreover have "float_of_int 1000 = 1000"
    using float_of_int_exact [of 1000] by simp
  moreover have "float_of_int FERRIS_EPOCH_MS = of_int FERRIS_EPOCH_MS"
    by (rule float_of_int_exact) (simp_all add: FERRIS_EPOCH_MS_def)
  ultimately show ?thesis
    using ex
    by (simp add: dt_to_snowflake_def timestamp_def int_truediv_def Let_def
        a_def [symmetric] s_def [symmetric] x_def [symmetric] k_def)
qed

text \<open>Decoding such a snowflake gives that millisecond back.\<close>

lemma datetime_min: "posix_us (datetime_utc 1 1 1 0 0 0 0) = - 62135596800000000"
  by code_simp

lemma datetime_max: "posix_us (datetime_utc 9999 12 31 23 59 59 999999) = 253402300799999999"
  by code_simp

lemma utcfromtimestamp_millis:
  assumes "1577836800000 \<le> k" and "k < 2147483648000"
  shows "utcfromtimestamp (int_truediv k 1000) = Inr (Datetime (k * 1000))"
proof -
  define b :: rat where "b = of_int k / 1000"
  have "(of_int 1577836800000 :: rat) \<le> of_int k" "(of_int k :: rat) < of_int 2147483648000"
    using assms by (simp_all only: of_int_le_iff of_int_less_iff)
  then have b: "1577836800 \<le> b" "b < 2147483648"
    by (simp_all add: b_def)
  then have bpos: "0 < b" by simp
  have ilb: "ilog2 b = 30"
    using b bpos by (intro ilog2_unique) (simp_all add: pow2_def)
  define sec where "sec = fl b"
  have "\<bar>sec - b\<bar> \<le> 1 / 8388608"
    using fl_error [OF bpos] by (simp add: sec_def ilb pow2_def)
  then have sec: "b - 1 / 8388608 \<le> sec" "sec \<le> b + 1 / 8388608"
    using abs_le_D by blast+
  define q where "q = k div 1000"
  define r where "r = k mod 1000"
  have r: "0 \<le> r" "r < 1000" by (simp_all add: r_def)
  have kqr: "k = 1000 * q + r" by (simp add: q_def r_def)
  have q: "0 \<le> q" "q < 2 ^ 53" using assms by (simp_all add: q_def)
  have "(of_int k :: rat) = 1000 * of_int q + of_int r"
    unfolding q_def r_def by (rule div_mod_rat)
  then have bq: "b = of_int q + of_int r / 1000"
    by (simp add: b_def)
  have main: "py_int sec * 1000000
      + round_half_even (fl ((sec - of_int (py_int sec)) * 1000000)) = k * 1000"
  proof (cases "r = 0")
    case True
    with bq have "sec = of_int q"
      using q by (simp add: sec_def fl_of_int)
    moreover have "py_int (of_int q) = q"
      using q(1) by (simp add: py_int_def)
    moreover have "round_half_even (fl 0) = 0"
      by (simp add: fl_zero round_half_even_def)
    ultimately show ?thesis
      using True kqr by simp
  next
    case False
    with r have "1 \<le> r" "r \<le> 999" by simp_all
    then have "(of_int 1 :: rat) \<le> of_int r" "(of_int r :: rat) \<le> of_int 999"
      by (simp_all only: of_int_le_iff)
    then have rr: "(1 :: rat) \<le> of_int r" "(of_int r :: rat) \<le> 999" by simp_all
    have qs: "of_int q \<le> sec" "sec < of_int q + 1"
      using bq sec rr by linarith+
    then have "\<lfloor>sec\<rfloor> = q" by (intro floor_unique)
    moreover have "0 \<le> sec" using sec b by linarith
    ultimately have pq: "py_int sec = q" by (simp add: py_int_def)
    define y where "y = (sec - of_int q) * 1000000"
    have y: "of_int r * 1000 - 1000000 / 8388608 \<le> y" "y \<le> of_int r * 1000 + 1000000 / 8388608"
      using bq sec by (simp_all add: y_def) 
    have ypos: "0 < y" using y rr by linarith
    have y20: "y < pow2 20" using y rr by (simp add: pow2_def) 
    have "ilog2 y \<le> 19"
    proof (rule ccontr)
      assume "\<not> ilog2 y \<le> 19"
      then have "20 \<le> ilog2 y" by simp
      then have "pow2 20 \<le> pow2 (ilog2 y)" by (rule pow2_mono)
      with ilog2_bounds [OF ypos] y20 show False by linarith
    qed
    then have "ilog2 y - 53 \<le> - 34" by simp
    then have "pow2 (ilog2 y - 53) \<le> pow2 (- 34)" by (rule pow2_mono)
    also have "\<dots> \<le> 1 / 4" by (simp add: pow2_def)
    finally have "\<bar>fl y - y\<bar> \<le> 1 / 4"
      using fl_error [OF ypos] by linarith
    then have fy: "y - 1 / 4 \<le> fl y" "fl y \<le> y + 1 / 4"
      using abs_le_D by blast+
    have r1000: "(of_int (r * 1000) :: rat) = of_int r * 1000" by simp
    have "fl y - of_int (r * 1000) < 1 / 2" "- (fl y - of_int (r * 1000)) < 1 / 2"
      unfolding r1000 using fy y by linarith+
    then have "\<bar>fl y - of_int (r * 1000)\<bar> < 1 / 2"
      by (simp only: abs_less_iff)
    then have "round_half_even (fl y) = r * 1000"
      by (rule round_half_even_near)
    with pq kqr show ?thesis by (simp add: y_def)
  qed
  have f6: "float_of_int 1000000 = 1000000"
    using float_of_int_exact [of 1000000] by simp
  have range: "- 62135596800000000 \<le> k * 1000" "k * 1000 \<le> 253402300799999999"
    using assms by simp_all
  show ?thesis
    unfolding utcfromtimestamp_def int_truediv_def Let_def f6 datetime_min datetime_max
    using main range
    by (simp add: b_def [symmetric] sec_def [symmetric])
qed

lemma get_snowflake_creation_date_exact:
  assumes "FERRIS_EPOCH_MS \<le> k" and "k < 2147483648000"
  shows "get_snowflake_creation_date (push_bit 64 (k - FERRIS_EPOCH_MS)) = Inr (Datetime (k * 1000))"
proof -
  have "snowflake_timestamp (push_bit 64 (k - FERRIS_EPOCH_MS)) = k - FERRIS_EPOCH_MS"
    using snowflake_timestamp_low_bits [of 0 "k - FERRIS_EPOCH_MS"] by simp
  moreover have "utcfromtimestamp (int_truediv k 1000) = Inr (Datetime (k * 1000))"
    using assms by (intro utcfromtimestamp_millis) (simp_all add: FERRIS_EPOCH_MS_def)
  ultimately show ?thesis
    by (simp add: get_snowflake_creation_date_def)
qed

text \<open>The low 64 bits of an encoded snowflake are zero, for every instant.\<close>

lemma dt_to_snowflake_low_bits_zero: "dt_to_snowflake dt mod 2 ^ 64 = 0"
  by (simp add: dt_to_snowflake_def Let_def push_bit_int_def)

text \<open>So in this range decoding an encoded instant is the instant truncated to the
  millisecond. From \<open>2^31\<close> seconds on it is not, as the evaluation at
  2038-01-19T03:14:08.002 shows.\<close>

lemma roundtrip_exact_until_2038:
  assumes "posix_us (datetime_utc 2020 1 1 0 0 0 0) \<le> posix_us dt"
    and "posix_us dt < posix_us (datetime_utc 2038 1 19 3 14 8 0)"
  shows "get_snowflake_creation_date (dt_to_snowflake dt)
      = Inr (Datetime (posix_us dt div 1000 * 1000))"
proof -
  have lo: "posix_us (datetime_utc 2020 1 1 0 0 0 0) = 1577836800000000"
    by code_simp
  have hi: "posix_us (datetime_utc 2038 1 19 3 14 8 0) = 2147483648000000"
    by code_simp
  obtain us where dt: "dt = Datetime us" by (cases dt)
  from assms have us: "1577836800000000 \<le> us" "us < 2147483648000000"
    unfolding lo hi dt by simp_all
  then have "FERRIS_EPOCH_MS \<le> us div 1000" "us div 1000 < 2147483648000"
    by (simp_all add: FERRIS_EPOCH_MS_def)
  then have "get_snowflake_creation_date (push_bit 64 (us div 1000 - FERRIS_EPOCH_MS))
      = Inr (Datetime (us div 1000 * 1000))"
    by (rule get_snowflake_creation_date_exact)
  with dt_to_snowflake_exact [OF us] show ?thesis
    by (simp add: dt)
qed

end
